theory Spec2Isabelle
  imports Complex_Main
begin

section \<open>The data model (types.ts)\<close>

text \<open>
  A \<open>GraphNode\<close> is a d3 simulation node datum extended with \<open>id\<close> and the optional
  \<open>val\<close>. The optional fields of the datum that the program names (\<open>x\<close>, \<open>y\<close>, \<open>vx\<close>,
  \<open>vy\<close>, \<open>index\<close> in \<open>toggleLang\<close>; \<open>fx\<close>, \<open>fy\<close> in the drag handlers) are options:
  \<open>None\<close> is JavaScript's \<open>undefined\<close>/\<open>null\<close>. The fields \<open>id\<close>, \<open>x\<close>, \<open>y\<close> and
  \<open>index\<close> carry the suffix \<open>_n\<close> because the plain names are taken.
\<close>

record GraphNode =
  id_n :: string
  val :: "int option"
  x_n :: "real option"
  y_n :: "real option"
  vx :: "real option"
  vy :: "real option"
  index_n :: "nat option"
  fx :: "real option"
  fy :: "real option"

text \<open>An endpoint of a link is \<open>string | GraphNode\<close>.\<close>

datatype endpoint = Title string | Node GraphNode

record GraphLink =
  source :: endpoint
  target :: endpoint

record GraphData =
  nodes :: "GraphNode list"
  links :: "GraphLink list"

datatype AppState = IDLE | LOADING | VIEWING | ERROR

text \<open>The object literal \<open>{ id, val }\<close>: every other field is absent.\<close>

definition mk_node :: "string \<Rightarrow> int \<Rightarrow> GraphNode" where
  "mk_node i v = \<lparr>id_n = i, val = Some v, x_n = None, y_n = None, vx = None, vy = None,
     index_n = None, fx = None, fy = None\<rparr>"

definition mk_link :: "string \<Rightarrow> string \<Rightarrow> GraphLink" where
  "mk_link s t = \<lparr>source = Title s, target = Title t\<rparr>"

text \<open>\<open>getId\<close> of \<open>handleExpandNode\<close> (and the two \<open>typeof\<close> tests of \<open>toggleLang\<close>).\<close>

fun getId :: "endpoint \<Rightarrow> string" where
  "getId (Title s) = s"
| "getId (Node n) = id_n n"

definition link_pair :: "GraphLink \<Rightarrow> string \<times> string" where
  "link_pair l = (getId (source l), getId (target l))"

definition node_ids :: "GraphData \<Rightarrow> string list" where
  "node_ids g = map id_n (nodes g)"

definition link_pairs :: "GraphData \<Rightarrow> (string \<times> string) list" where
  "link_pairs g = map link_pair (links g)"

definition empty_graph :: GraphData where
  "empty_graph = \<lparr>nodes = [], links = []\<rparr>"

section \<open>The graph store (App component)\<close>

subsection \<open>seed: the graph that loadGraphData commits\<close>

text \<open>
  \<open>links\<close> is the list that \<open>getArticleLinks\<close> returned. The new graph is the root node
  followed by one node per element of the list, and one link per element.
\<close>

definition seed :: "string \<Rightarrow> string list \<Rightarrow> GraphData" where
  "seed title lks =
     \<lparr>nodes = mk_node title 2 # map (\<lambda>link. mk_node link 1) lks,
      links = map (\<lambda>link. mk_link title link) lks\<rparr>"

subsection \<open>expand: the state updater of handleExpandNode\<close>

definition existingNodeIds :: "GraphData \<Rightarrow> string set" where
  "existingNodeIds prevData = set (map id_n (nodes prevData))"

definition link_key :: "string \<Rightarrow> string \<Rightarrow> string" where
  "link_key s t = s @ ''-'' @ t"

definition existingLinkKeys :: "GraphData \<Rightarrow> string set" where
  "existingLinkKeys prevData =
     set (map (\<lambda>l. link_key (getId (source l)) (getId (target l))) (links prevData))"

definition nodesToAdd :: "GraphData \<Rightarrow> string list \<Rightarrow> GraphNode list" where
  "nodesToAdd prevData newLinksData =
     map (\<lambda>i. mk_node i 1) (filter (\<lambda>i. i \<notin> existingNodeIds prevData) newLinksData)"

definition linksToAdd :: "GraphData \<Rightarrow> string \<Rightarrow> string list \<Rightarrow> GraphLink list" where
  "linksToAdd prevData selectedId newLinksData =
     filter (\<lambda>l. link_key (getId (source l)) (getId (target l)) \<notin> existingLinkKeys prevData)
       (map (\<lambda>targetId. mk_link selectedId targetId) newLinksData)"

definition safeLinksToAdd :: "GraphData \<Rightarrow> string \<Rightarrow> string list \<Rightarrow> GraphLink list" where
  "safeLinksToAdd prevData selectedId newLinksData =
     filter (\<lambda>l. list_ex (\<lambda>n. id_n n = getId (target l)) (nodesToAdd prevData newLinksData)
                \<or> getId (target l) \<in> existingNodeIds prevData)
       (linksToAdd prevData selectedId newLinksData)"

definition expand :: "GraphData \<Rightarrow> string \<Rightarrow> string list \<Rightarrow> GraphData" where
  "expand prevData selectedId newLinksData =
     (if nodesToAdd prevData newLinksData = [] then prevData
      else \<lparr>nodes = nodes prevData @ nodesToAdd prevData newLinksData,
            links = links prevData @ safeLinksToAdd prevData selectedId newLinksData\<rparr>)"

subsection \<open>relabel: the graph that toggleLang commits\<close>

text \<open>
  The translation table is a plain JavaScript object: besides the entries stored in it
  (its own properties, the partial map below) a read finds the members that every plain
  object inherits from \<open>Object.prototype\<close>. These are functions, and for \<open>__proto__\<close> the
  prototype object itself: values that are no strings and that \<open>||\<close> takes as true.
\<close>

definition object_prototype_keys :: "string list" where
  "object_prototype_keys =
     [''constructor'', ''hasOwnProperty'', ''isPrototypeOf'', ''propertyIsEnumerable'',
      ''toLocaleString'', ''toString'', ''valueOf'', ''__defineGetter__'',
      ''__defineSetter__'', ''__lookupGetter__'', ''__lookupSetter__'', ''__proto__'']"

datatype js_value = Undefined | Str string | Inherited string

text \<open>The read \<open>translationMap[key]\<close>.\<close>

definition get_property :: "(string \<rightharpoonup> string) \<Rightarrow> string \<Rightarrow> js_value" where
  "get_property own key =
     (case own key of
        Some v \<Rightarrow> Str v
      | None \<Rightarrow> if key \<in> set object_prototype_keys then Inherited key else Undefined)"

text \<open>
  \<open>translationMap[id] || id\<close>: a missing entry and the empty string fall back to the id;
  an inherited member does not.
\<close>

definition translate :: "(string \<rightharpoonup> string) \<Rightarrow> string \<Rightarrow> js_value" where
  "translate translationMap i =
     (case get_property translationMap i of
        Undefined \<Rightarrow> Str i
      | Str t \<Rightarrow> if t = [] then Str i else Str t
      | Inherited key \<Rightarrow> Inherited key)"

definition as_string :: "js_value \<Rightarrow> string option" where
  "as_string v = (case v of Str s \<Rightarrow> Some s | _ \<Rightarrow> None)"

text \<open>
  The new node and the new link that \<open>toggleLang\<close> builds from an old one. \<open>types.ts\<close>
  declares the id of a node and the endpoints of a stored link to be strings; where the
  translation is an inherited member there is no such node or link, and the result is
  \<open>None\<close>.
\<close>

definition relabel_node :: "(string \<rightharpoonup> string) \<Rightarrow> GraphNode \<Rightarrow> GraphNode option" where
  "relabel_node translationMap node =
     map_option
       (\<lambda>i. node\<lparr>id_n := i, x_n := None, y_n := None, vx := None, vy := None, index_n := None\<rparr>)
       (as_string (translate translationMap (id_n node)))"

definition relabel_link :: "(string \<rightharpoonup> string) \<Rightarrow> GraphLink \<Rightarrow> GraphLink option" where
  "relabel_link translationMap link =
     (case as_string (translate translationMap (getId (source link))) of
        None \<Rightarrow> None
      | Some s \<Rightarrow>
          (case as_string (translate translationMap (getId (target link))) of
             None \<Rightarrow> None
           | Some t \<Rightarrow> Some (mk_link s t)))"

text \<open>
  The graph that \<open>toggleLang\<close> commits, when it is a graph of strings. On \<open>None\<close> the
  program commits nodes or links that hold a function or an object for an id, and the
  view throws on them when it next starts a simulation (\<open>d.id.substring\<close>, or d3's lookup
  of a link's endpoint).
\<close>

definition relabel :: "(string \<rightharpoonup> string) \<Rightarrow> GraphData \<Rightarrow> GraphData option" where
  "relabel translationMap g =
     (case those (map (relabel_node translationMap) (nodes g)) of
        None \<Rightarrow> None
      | Some newNodes \<Rightarrow>
          (case those (map (relabel_link translationMap) (links g)) of
             None \<Rightarrow> None
           | Some newLinks \<Rightarrow> Some \<lparr>nodes = newNodes, links = newLinks\<rparr>))"

text \<open>The ids that occur in a graph, as node ids or as endpoints of links.\<close>

definition graph_ids :: "GraphData \<Rightarrow> string set" where
  "graph_ids g = set (node_ids g) \<union> fst ` set (link_pairs g) \<union> snd ` set (link_pairs g)"

subsection \<open>The application state and the four operations on it\<close>

text \<open>
  Of the component's state only the two parts that decide the graph are kept. The provider
  calls (\<open>getArticleLinks\<close>, \<open>getBatchTranslations\<close>) catch their own failures and return
  an empty result, so the \<open>catch\<close> branches of the handlers are not reached and each
  operation takes the provider's answer as an argument. \<open>handleExpandNode\<close> reads the
  selected node from its closure, so the node is an argument too; the handler returns at
  once when there is none. \<open>toggleLang\<close> reads the graph when it is called and commits
  when the provider has answered; here an operation is applied whole, so the graph it
  reads is the current one.
\<close>

record App =
  appState :: AppState
  graphData :: GraphData

definition initial_app :: App where
  "initial_app = \<lparr>appState = IDLE, graphData = empty_graph\<rparr>"

definition loadGraphData :: "string \<Rightarrow> string list \<Rightarrow> App \<Rightarrow> App" where
  "loadGraphData title lks app = \<lparr>appState = VIEWING, graphData = seed title lks\<rparr>"

definition handleExpandNode :: "GraphNode option \<Rightarrow> string list \<Rightarrow> App \<Rightarrow> App" where
  "handleExpandNode selectedNode newLinksData app =
     (case selectedNode of
        None \<Rightarrow> app
      | Some n \<Rightarrow> app\<lparr>graphData := expand (graphData app) (id_n n) newLinksData\<rparr>)"

definition toggleLang :: "(string \<rightharpoonup> string) \<Rightarrow> App \<Rightarrow> App option" where
  "toggleLang translationMap app =
     (if appState app = VIEWING \<and> nodes (graphData app) \<noteq> []
      then map_option (\<lambda>g. \<lparr>appState = VIEWING, graphData = g\<rparr>)
             (relabel translationMap (graphData app))
      else Some app)"

definition reset :: "App \<Rightarrow> App" where
  "reset app = \<lparr>appState = IDLE, graphData = empty_graph\<rparr>"

datatype Op =
    Seed string "string list"
  | Expand "GraphNode option" "string list"
  | Relabel "string \<Rightarrow> string option"
  | Clear

fun step :: "App \<Rightarrow> Op \<Rightarrow> App option" where
  "step app (Seed title lks) = Some (loadGraphData title lks app)"
| "step app (Expand sel lks) = Some (handleExpandNode sel lks app)"
| "step app (Relabel m) = toggleLang m app"
| "step app Clear = Some (reset app)"

text \<open>
  The state after a sequence of operations. A relabel that does not yield a graph of
  strings ends the run, and the state before it is the last one: \<open>run\<close> yields only states
  that the application is in after operations it has carried out.
\<close>

fun run_from :: "App \<Rightarrow> Op list \<Rightarrow> App" where
  "run_from app [] = app"
| "run_from app (op # ops) =
     (case step app op of None \<Rightarrow> app | Some app' \<Rightarrow> run_from app' ops)"

definition run :: "Op list \<Rightarrow> App" where
  "run ops = run_from initial_app ops"

text \<open>The graph invariants the specification names.\<close>

definition unique_links :: "GraphData \<Rightarrow> bool" where
  "unique_links g = distinct (link_pairs g)"

definition no_dangling :: "GraphData \<Rightarrow> bool" where
  "no_dangling g =
     list_all (\<lambda>l. getId (source l) \<in> existingNodeIds g \<and> getId (target l) \<in> existingNodeIds g)
       (links g)"

text \<open>A sequence of seed and expand operations whose title lists hold no title twice.\<close>

fun seed_expand_distinct :: "Op list \<Rightarrow> bool" where
  "seed_expand_distinct [] = True"
| "seed_expand_distinct (Seed title lks # ops) = (distinct lks \<and> seed_expand_distinct ops)"
| "seed_expand_distinct (Expand sel lks # ops) = (distinct lks \<and> seed_expand_distinct ops)"
| "seed_expand_distinct (_ # ops) = False"

section \<open>The layout simulator (ForceGraph component)\<close>

text \<open>
  \<open>initGraph\<close> hands d3 a copy of every node and link of \<open>data\<close> and the two physics
  constants computed from the node count. The record holds what the function computes to
  hand over. The function returns early when the view is not mounted. What d3 does with
  its arguments is not part of the record: it gives every node an index, a position and a
  velocity, it never writes a pin, and its link force, which is installed after the nodes
  have been handed over, throws when an endpoint of a link is the id of no node.
\<close>

record Simulation =
  sim_nodes :: "GraphNode list"
  sim_links :: "GraphLink list"
  linkDistance :: real
  chargeStrength :: real

definition dynamicLinkDistance :: "nat \<Rightarrow> real" where
  "dynamicLinkDistance nodeCount = min 600 (100 + (real nodeCount * 0.8))"

definition dynamicChargeStrength :: "nat \<Rightarrow> real" where
  "dynamicChargeStrength nodeCount = max (- 2000) (- 300 - (real nodeCount * 3))"

definition initGraph :: "bool \<Rightarrow> GraphData \<Rightarrow> Simulation option" where
  "initGraph mounted data =
     (if \<not> mounted then None
      else let nds = map (\<lambda>d. d) (nodes data);
               lks = map (\<lambda>d. d) (links data);
               nodeCount = length nds
           in Some \<lparr>sim_nodes = nds, sim_links = lks,
                    linkDistance = dynamicLinkDistance nodeCount,
                    chargeStrength = dynamicChargeStrength nodeCount\<rparr>)"

text \<open>The drag handlers, on the node that is dragged; the event carries a position.\<close>

definition dragstarted :: "GraphNode \<Rightarrow> GraphNode" where
  "dragstarted d = d\<lparr>fx := x_n d, fy := y_n d\<rparr>"

definition dragged :: "real \<times> real \<Rightarrow> GraphNode \<Rightarrow> GraphNode" where
  "dragged event d = d\<lparr>fx := Some (fst event), fy := Some (snd event)\<rparr>"

definition dragended :: "GraphNode \<Rightarrow> GraphNode" where
  "dragended d = d\<lparr>fx := None, fy := None\<rparr>"

text \<open>
  d3 calls a drag handler with the node object bound to the dragged bubble, which is one
  element of the running simulation's node array; the handler mutates it in place.
\<close>

definition on_node :: "nat \<Rightarrow> (GraphNode \<Rightarrow> GraphNode) \<Rightarrow> GraphNode list \<Rightarrow> GraphNode list" where
  "on_node k h ns = (if k < length ns then ns[k := h (ns ! k)] else ns)"

text \<open>The lookup of the focus effect: \<open>nodes().find(n => n.id === focusedNodeId)\<close>.\<close>

definition find_node :: "string \<Rightarrow> GraphNode list \<Rightarrow> GraphNode option" where
  "find_node i ns = find (\<lambda>n. id_n n = i) ns"

definition layout_unset :: "GraphNode \<Rightarrow> bool" where
  "layout_unset n =
     (x_n n = None \<and> y_n n = None \<and> vx n = None \<and> vy n = None \<and> fx n = None \<and> fy n = None)"

text \<open>
  The node array that a mounted view hands to \<open>d3.forceSimulation\<close> for \<open>data\<close>, as
  \<open>initGraph\<close> builds it.
\<close>

definition running_nodes :: "GraphData \<Rightarrow> GraphNode list" where
  "running_nodes data = (case initGraph True data of None \<Rightarrow> [] | Some s \<Rightarrow> sim_nodes s)"

text \<open>The pin of the node with a given id, when the array has such a node.\<close>

definition pin_state :: "string \<Rightarrow> GraphNode list \<Rightarrow> (real option \<times> real option) option" where
  "pin_state i ns = map_option (\<lambda>n. (fx n, fy n)) (find_node i ns)"

text \<open>The clamp of the specification, to compare the two formulas with.\<close>

definition clamp_spec :: "real \<Rightarrow> real \<Rightarrow> real \<Rightarrow> real" where
  "clamp_spec v lo hi = (if v < lo then lo else if hi < v then hi else v)"

section \<open>The translation provider (wikiService)\<close>

text \<open>
  One request of \<open>getBatchTranslations\<close> either throws (the network, or the JSON parse)
  or yields a body whose \<open>query.pages\<close> may be missing. A page has a title and may have
  \<open>langlinks\<close>; only the text of each langlink is kept. A body that is parsed has the
  provider's shape, so nothing throws while its pages are read.
\<close>

record page =
  title :: string
  langlinks :: "string list option"

datatype response = Threw | Body "page list option"

text \<open>\<open>Array.from(new Set(titles))\<close>: the first occurrence of each title, in order.\<close>

definition uniqueTitles :: "string list \<Rightarrow> string list" where
  "uniqueTitles titles = rev (remdups (rev titles))"

definition chunkSize :: nat where
  "chunkSize = 50"

text \<open>\<open>chunk.join('|')\<close>, the value of the request's \<open>titles\<close> parameter.\<close>

fun join_bar :: "string list \<Rightarrow> string" where
  "join_bar [] = []"
| "join_bar [x] = x"
| "join_bar (x # y # ys) = x @ ''|'' @ join_bar (y # ys)"

text \<open>
  The body of \<open>forEach\<close> over the pages of one response. \<open>translations\<close> is a plain
  object; the assignment stores an own property for every key but \<open>__proto__\<close>, where it
  runs the inherited setter, which ignores a string.
\<close>

definition store_page :: "page \<Rightarrow> (string \<rightharpoonup> string) \<Rightarrow> (string \<rightharpoonup> string)" where
  "store_page p translations =
     (case langlinks p of
        Some (l # ls) \<Rightarrow>
          if title p = ''__proto__'' then translations else translations(title p \<mapsto> l)
      | _ \<Rightarrow> translations)"

text \<open>The \<open>try\<close> block of one batch: a throw leaves the translations as they are.\<close>

definition absorb :: "response \<Rightarrow> (string \<rightharpoonup> string) \<Rightarrow> (string \<rightharpoonup> string)" where
  "absorb r translations =
     (case r of
        Threw \<Rightarrow> translations
      | Body None \<Rightarrow> translations
      | Body (Some pages) \<Rightarrow> fold store_page pages translations)"

text \<open>
  The \<open>for\<close> loop. The provider answers the request made at offset \<open>i\<close> with the
  parameter \<open>titlesParam\<close>; the second component of the state lists the requests made so
  far, each with its offset and its parameter.
\<close>

function batch_loop ::
  "(nat \<Rightarrow> string \<Rightarrow> response) \<Rightarrow> string list \<Rightarrow> nat \<Rightarrow>
   (string \<rightharpoonup> string) \<times> (nat \<times> string) list \<Rightarrow> (string \<rightharpoonup> string) \<times> (nat \<times> string) list" where
  "batch_loop fetch uts i st =
     (if i < length uts
      then let chunk = take chunkSize (drop i uts);
               titlesParam = join_bar chunk
           in batch_loop fetch uts (i + chunkSize)
                (absorb (fetch i titlesParam) (fst st), snd st @ [(i, titlesParam)])
      else st)"
  by pat_completeness auto
termination
  by (relation "measure (\<lambda>(fetch, uts, i, st). length uts - i)") (auto simp: chunkSize_def)

declare batch_loop.simps [simp del]

definition getBatchTranslations ::
  "(nat \<Rightarrow> string \<Rightarrow> response) \<Rightarrow> string list \<Rightarrow> (string \<rightharpoonup> string) \<times> (nat \<times> string) list" where
  "getBatchTranslations fetch titles =
     (if titles = [] then (Map.empty, [])
      else batch_loop fetch (uniqueTitles titles) 0 (Map.empty, []))"

text \<open>
  The identifiers that a \<open>titles\<close> parameter names to the provider: the pieces between
  its bars.
\<close>

fun split_bar :: "string \<Rightarrow> string list" where
  "split_bar [] = [[]]"
| "split_bar (c # cs) =
     (if c = CHR ''|'' then [] # split_bar cs
      else (case split_bar cs of [] \<Rightarrow> [[c]] | p # ps \<Rightarrow> (c # p) # ps))"

text \<open>
  The translations gathered from the responses to a list of requests, to compare the
  result of the loop with: from every response that is a body with pages, the title and
  the first langlink of each page that has one, in order. A page titled \<open>__proto__\<close> is
  left out.
\<close>

definition page_entry :: "page \<Rightarrow> (string \<times> string) list" where
  "page_entry p =
     (case langlinks p of
        Some (l # ls) \<Rightarrow> if title p = ''__proto__'' then [] else [(title p, l)]
      | _ \<Rightarrow> [])"

definition response_entries :: "response \<Rightarrow> (string \<times> string) list" where
  "response_entries r =
     (case r of Body (Some pages) \<Rightarrow> concat (map page_entry pages) | _ \<Rightarrow> [])"

definition gathered :: "(nat \<Rightarrow> string \<Rightarrow> response) \<Rightarrow> (nat \<times> string) list \<Rightarrow> (string \<times> string) list" where
  "gathered fetch reqs = concat (map (\<lambda>r. response_entries (fetch (fst r) (snd r))) reqs)"

text \<open>
  Concrete runs. Fifty-one titles, the first listed twice, with a provider whose first
  request throws while every other request answers with one langlink per identifier;
  fifty titles of which one holds a bar, with a provider that throws; and a provider
  that answers with a page titled \<open>__proto__\<close>.
\<close>

abbreviation example_titles :: "string list" where
  "example_titles \<equiv>
     [''t01'', ''t02'', ''t03'', ''t04'', ''t05'', ''t06'', ''t07'', ''t08'', ''t09'', ''t10'',
      ''t11'', ''t12'', ''t13'', ''t14'', ''t15'', ''t16'', ''t17'', ''t18'', ''t19'', ''t20'',
      ''t21'', ''t22'', ''t23'', ''t24'', ''t25'', ''t26'', ''t27'', ''t28'', ''t29'', ''t30'',
      ''t31'', ''t32'', ''t33'', ''t34'', ''t35'', ''t36'', ''t37'', ''t38'', ''t39'', ''t40'',
      ''t41'', ''t42'', ''t43'', ''t44'', ''t45'', ''t46'', ''t47'', ''t48'', ''t49'', ''t50'',
      ''t51'', ''t01'']"

definition example_fetch :: "nat \<Rightarrow> string \<Rightarrow> response" where
  "example_fetch i titlesParam =
     (if i = 0 then Threw
      else Body (Some (map (\<lambda>t. \<lparr>title = t, langlinks = Some [t @ ''_fr'']\<rparr>)
                        (split_bar titlesParam))))"

abbreviation bar_titles :: "string list" where
  "bar_titles \<equiv>
     [''t01'', ''t02'', ''t03'', ''t04'', ''t05'', ''t06'', ''t07'', ''t08'', ''t09'', ''t10'',
      ''t11'', ''t12'', ''t13'', ''t14'', ''t15'', ''t16'', ''t17'', ''t18'', ''t19'', ''t20'',
      ''t21'', ''t22'', ''t23'', ''t24'', ''t25'', ''t26'', ''t27'', ''t28'', ''t29'', ''t30'',
      ''t31'', ''t32'', ''t33'', ''t34'', ''t35'', ''t36'', ''t37'', ''t38'', ''t39'', ''t40'',
      ''t41'', ''t42'', ''t43'', ''t44'', ''t45'', ''t46'', ''t47'', ''t48'', ''t49'', ''a|b'']"

definition failing_fetch :: "nat \<Rightarrow> string \<Rightarrow> response" where
  "failing_fetch i titlesParam = Threw"

definition proto_fetch :: "nat \<Rightarrow> string \<Rightarrow> response" where
  "proto_fetch i titlesParam =
     Body (Some [\<lparr>title = ''__proto__'', langlinks = Some [''prototype'']\<rparr>])"

section \<open>Seeding\<close>

lemma node_ids_seed: "node_ids (seed r ls) = r # ls"
  by (simp add: node_ids_def seed_def mk_node_def comp_def)

lemma link_pairs_seed: "link_pairs (seed r ls) = map (Pair r) ls"
  by (simp add: link_pairs_def seed_def mk_link_def link_pair_def comp_def)

text \<open>
  The graph built for a list that names a title twice has two nodes of that title: the
  list is mapped element by element and nothing removes a repetition.
\<close>

theorem seed_duplicate_title_counterexample:
  "count_list (node_ids (seed ''A'' [''B'', ''B''])) ''B'' = 2 \<and>
   length (nodes (seed ''A'' [''B'', ''B''])) = 3 \<and>
   card (set [''B'', ''B'']) = 1"
  by (simp add: seed_def node_ids_def mk_node_def)

text \<open>
  Claim C1, as the code has it. \<open>seed\<close> yields the root node of weight 2 followed by one
  node of weight 1 for every element of the list, in order, so a title has as many nodes
  as it has occurrences in the list; there is one link from the root for every element;
  the empty list gives the graph of the root alone. For a list without repetition the
  graph has one node per distinct linked title besides the root.
\<close>

theorem seed_one_node_per_listed_title:
  "nodes (seed r ls) = mk_node r 2 # map (\<lambda>t. mk_node t 1) ls \<and>
   count_list (map id_n (tl (nodes (seed r ls)))) t = count_list ls t \<and>
   link_pairs (seed r ls) = map (Pair r) ls \<and>
   seed r [] = \<lparr>nodes = [mk_node r 2], links = []\<rparr> \<and>
   (distinct ls \<longrightarrow> length (nodes (seed r ls)) = 1 + card (set ls))"
  by (simp add: seed_def link_pairs_def link_pair_def mk_link_def mk_node_def comp_def
      distinct_card)

theorem seed_one_node_per_listed_title_witness:
  "distinct [''Physics'', ''Nobel Prize'', ''Germany''] \<and>
   length (nodes (seed ''Albert Einstein'' [''Physics'', ''Nobel Prize'', ''Germany''])) = 4 \<and>
   map val (nodes (seed ''Albert Einstein'' [''Physics'', ''Nobel Prize'', ''Germany''])) =
     [Some 2, Some 1, Some 1, Some 1] \<and>
   link_pairs (seed ''Albert Einstein'' [''Physics'', ''Nobel Prize'', ''Germany'']) =
     [(''Albert Einstein'', ''Physics''), (''Albert Einstein'', ''Nobel Prize''),
      (''Albert Einstein'', ''Germany'')]"
  using seed_one_node_per_listed_title
    [of "''Albert Einstein''" "[''Physics'', ''Nobel Prize'', ''Germany'']" "''Physics''"]
  by (simp add: mk_node_def)

section \<open>Expanding\<close>

lemma nodesToAdd_empty_iff: "nodesToAdd g ls = [] \<longleftrightarrow> set ls \<subseteq> existingNodeIds g"
  by (auto simp: nodesToAdd_def filter_empty_conv)

lemma ids_nodesToAdd:
  "map id_n (nodesToAdd g ls) = filter (\<lambda>i. i \<notin> existingNodeIds g) ls"
  by (simp add: nodesToAdd_def mk_node_def comp_def)

lemma nodes_expand: "nodes (expand g s ls) = nodes g @ nodesToAdd g ls"
  by (simp add: expand_def)

lemma existingNodeIds_expand:
  "existingNodeIds (expand g s ls) = existingNodeIds g \<union> set ls"
proof (cases "nodesToAdd g ls = []")
  case True
  then show ?thesis by (auto simp: expand_def nodesToAdd_empty_iff)
next
  case False
  then have "existingNodeIds (expand g s ls) =
      existingNodeIds g \<union> set (map id_n (nodesToAdd g ls))"
    by (simp add: expand_def existingNodeIds_def)
  then show ?thesis by (auto simp: ids_nodesToAdd)
qed

text \<open>
  The second filter of the new links keeps every link: a target is either an existing
  node or one of the nodes that are added.
\<close>

lemma link_pairs_safe:
  "map link_pair (safeLinksToAdd g s ls) =
   map (Pair s) (filter (\<lambda>t. link_key s t \<notin> existingLinkKeys g) ls)"
proof -
  have "\<And>t. t \<in> set ls \<Longrightarrow>
      list_ex (\<lambda>n. id_n n = t) (nodesToAdd g ls) \<or> t \<in> existingNodeIds g"
    by (auto simp: list_ex_iff nodesToAdd_def mk_node_def)
  then have "filter (\<lambda>t. link_key s t \<notin> existingLinkKeys g \<and>
             (list_ex (\<lambda>n. id_n n = t) (nodesToAdd g ls) \<or> t \<in> existingNodeIds g)) ls =
        filter (\<lambda>t. link_key s t \<notin> existingLinkKeys g) ls"
    by (intro filter_cong) auto
  then show ?thesis
    by (simp add: safeLinksToAdd_def linksToAdd_def filter_map comp_def mk_link_def
        link_pair_def)
qed

lemma safe_link_shape:
  "l \<in> set (safeLinksToAdd g s ls) \<Longrightarrow> \<exists>t \<in> set ls. l = mk_link s t"
  by (auto simp: safeLinksToAdd_def linksToAdd_def)

lemma key_not_in: "link_key s t \<notin> existingLinkKeys g \<Longrightarrow> (s, t) \<notin> set (link_pairs g)"
  by (auto simp: existingLinkKeys_def link_pairs_def link_pair_def)

text \<open>
  Claim C5. Expanding a second time from the same node with the same list changes
  nothing: after the first call every listed title is a node, so the second call finds
  no node to add and returns the graph it was given.
\<close>

theorem expand_idempotent: "expand (expand g s ls) s ls = expand g s ls"
proof -
  have "set ls \<subseteq> existingNodeIds (expand g s ls)"
    by (simp add: existingNodeIds_expand)
  then have "nodesToAdd (expand g s ls) ls = []"
    by (simp add: nodesToAdd_empty_iff)
  then show ?thesis
    by (simp add: expand_def[of "expand g s ls"])
qed

text \<open>
  Claim C6. When the list of nodes to add is empty, which is when every listed title
  is already a node, \<open>expand\<close> returns the graph unchanged; it is a total function, so
  the call yields this graph and no error.
\<close>

theorem expand_without_new_nodes_unchanged:
  "nodesToAdd g ls = [] \<Longrightarrow> expand g s ls = g \<and> set ls \<subseteq> existingNodeIds g"
  by (simp add: expand_def nodesToAdd_empty_iff)

theorem expand_without_new_nodes_unchanged_witness:
  "nodesToAdd (seed ''Albert Einstein'' [''Physics'', ''Nobel Prize'', ''Germany''])
     [''Nobel Prize''] = [] \<and>
   expand (seed ''Albert Einstein'' [''Physics'', ''Nobel Prize'', ''Germany'']) ''Physics''
     [''Nobel Prize''] = seed ''Albert Einstein'' [''Physics'', ''Nobel Prize'', ''Germany'']"
proof -
  have h: "nodesToAdd (seed ''Albert Einstein'' [''Physics'', ''Nobel Prize'', ''Germany''])
     [''Nobel Prize''] = []"
    by (simp add: nodesToAdd_def existingNodeIds_def seed_def mk_node_def)
  from expand_without_new_nodes_unchanged [OF h, of "''Physics''"] h show ?thesis
    by simp
qed

text \<open>
  Claim C10. The keys of the pairs \<open>(a, b-c)\<close> and \<open>(a-b, c)\<close> are the same string. In the
  graph seeded from \<open>a\<close> with the titles \<open>b-c\<close> and \<open>a-b\<close>, expanding \<open>a-b\<close> with the new
  title \<open>c\<close> adds the node \<open>c\<close> and no link to it, because the key of the new link is the
  key of the existing link from \<open>a\<close> to \<open>b-c\<close>; without that link the same call adds the
  link.
\<close>

theorem expand_link_key_collision:
  "link_key ''a'' ''b-c'' = link_key ''a-b'' ''c'' \<and>
   (''a'', ''b-c'') \<noteq> (''a-b'', ''c'') \<and>
   (''a-b'', ''c'') \<notin> set (link_pairs (seed ''a'' [''b-c'', ''a-b''])) \<and>
   node_ids (expand (seed ''a'' [''b-c'', ''a-b'']) ''a-b'' [''c'']) =
     [''a'', ''b-c'', ''a-b'', ''c''] \<and>
   link_pairs (expand (seed ''a'' [''b-c'', ''a-b'']) ''a-b'' [''c'']) =
     [(''a'', ''b-c''), (''a'', ''a-b'')] \<and>
   link_pairs (expand (seed ''a'' [''a-b'']) ''a-b'' [''c'']) =
     [(''a'', ''a-b''), (''a-b'', ''c'')]"
  by (simp add: link_key_def seed_def expand_def nodesToAdd_def linksToAdd_def
      safeLinksToAdd_def existingNodeIds_def existingLinkKeys_def mk_node_def mk_link_def
      link_pairs_def link_pair_def node_ids_def)

section \<open>Sequences of operations\<close>

subsection \<open>No two links with the same ordered pair\<close>

lemma unique_links_seed: "distinct ls \<Longrightarrow> unique_links (seed r ls)"
  by (simp add: unique_links_def link_pairs_seed distinct_map inj_on_def)

lemma unique_links_expand:
  assumes "unique_links g" "distinct ls"
  shows "unique_links (expand g s ls)"
proof (cases "nodesToAdd g ls = []")
  case True
  then show ?thesis using assms by (simp add: expand_def)
next
  case False
  have "link_pairs (expand g s ls) =
      link_pairs g @ map (Pair s) (filter (\<lambda>t. link_key s t \<notin> existingLinkKeys g) ls)"
    using False by (simp add: expand_def link_pairs_def link_pairs_safe)
  moreover have "distinct (map (Pair s) (filter (\<lambda>t. link_key s t \<notin> existingLinkKeys g) ls))"
    using assms(2) by (simp add: distinct_map inj_on_def)
  ultimately show ?thesis
    using assms(1) by (auto simp: unique_links_def dest: key_not_in)
qed

lemma unique_links_run_from:
  "unique_links (graphData app) \<Longrightarrow> seed_expand_distinct ops \<Longrightarrow>
   unique_links (graphData (run_from app ops))"
proof (induction ops arbitrary: app)
  case Nil
  then show ?case by simp
next
  case (Cons op ops)
  show ?case
  proof (cases op)
    case (Seed r ls)
    with Cons show ?thesis by (simp add: loadGraphData_def unique_links_seed)
  next
    case (Expand sel ls)
    with Cons show ?thesis
      by (cases sel) (simp_all add: handleExpandNode_def unique_links_expand)
  qed (use Cons.prems in simp_all)
qed

text \<open>
  A seed whose list names a title twice commits two links with the same ordered pair,
  and so does an expand: the new links are compared with the links of the graph, not
  with each other.
\<close>

theorem seed_duplicate_link_counterexample:
  "\<not> unique_links (graphData (run [Seed ''A'' [''B'', ''B'']])) \<and>
   \<not> unique_links (graphData (run [Seed ''A'' [''B''], Expand (Some (mk_node ''A'' 2)) [''C'', ''C'']]))"
  by (simp add: run_def initial_app_def loadGraphData_def handleExpandNode_def unique_links_def
      link_pairs_def link_pair_def seed_def expand_def nodesToAdd_def safeLinksToAdd_def
      linksToAdd_def existingNodeIds_def existingLinkKeys_def mk_node_def mk_link_def
      link_key_def)

text \<open>
  Claim C2, as the code has it. After any sequence of seed and expand operations from
  the empty graph in which no title list names a title twice, no two links of the graph
  have the same ordered pair of source and target.
\<close>

theorem seed_expand_unique_links:
  "seed_expand_distinct ops \<Longrightarrow> unique_links (graphData (run ops))"
  unfolding run_def
  by (rule unique_links_run_from)
    (simp_all add: initial_app_def empty_graph_def unique_links_def link_pairs_def)

theorem seed_expand_unique_links_witness:
  "seed_expand_distinct
     [Seed ''A'' [''B'', ''C''], Expand (Some (mk_node ''B'' 1)) [''C'', ''D''],
      Expand (Some (mk_node ''B'' 1)) [''D'', ''E'']] \<and>
   unique_links (graphData (run
     [Seed ''A'' [''B'', ''C''], Expand (Some (mk_node ''B'' 1)) [''C'', ''D''],
      Expand (Some (mk_node ''B'' 1)) [''D'', ''E'']])) \<and>
   link_pairs (graphData (run
     [Seed ''A'' [''B'', ''C''], Expand (Some (mk_node ''B'' 1)) [''C'', ''D''],
      Expand (Some (mk_node ''B'' 1)) [''D'', ''E'']])) =
     [(''A'', ''B''), (''A'', ''C''), (''B'', ''C''), (''B'', ''D''), (''B'', ''E'')]"
  using seed_expand_unique_links [of
     "[Seed ''A'' [''B'', ''C''], Expand (Some (mk_node ''B'' 1)) [''C'', ''D''],
      Expand (Some (mk_node ''B'' 1)) [''D'', ''E'']]"]
  by (simp add: run_def initial_app_def empty_graph_def loadGraphData_def handleExpandNode_def
      seed_def expand_def nodesToAdd_def safeLinksToAdd_def linksToAdd_def existingNodeIds_def
      existingLinkKeys_def mk_node_def mk_link_def link_key_def link_pairs_def link_pair_def)

subsection \<open>Dangling links\<close>

lemma no_dangling_seed: "no_dangling (seed r ls)"
  by (simp add: no_dangling_def seed_def existingNodeIds_def mk_link_def mk_node_def
      list_all_iff)

text \<open>
  The guard of \<open>expand\<close> is enough while the selected node is a node of the graph.
\<close>

lemma no_dangling_expand:
  assumes "no_dangling g" "s \<in> existingNodeIds g"
  shows "no_dangling (expand g s ls)"
proof (cases "nodesToAdd g ls = []")
  case True
  then show ?thesis using assms by (simp add: expand_def)
next
  case False
  have ids: "existingNodeIds (expand g s ls) = existingNodeIds g \<union> set ls"
    by (rule existingNodeIds_expand)
  have lk: "links (expand g s ls) = links g @ safeLinksToAdd g s ls"
    using False by (simp add: expand_def)
  have old: "\<forall>l \<in> set (links g).
      getId (source l) \<in> existingNodeIds g \<and> getId (target l) \<in> existingNodeIds g"
    using assms(1) by (simp add: no_dangling_def list_all_iff)
  have new: "\<forall>l \<in> set (safeLinksToAdd g s ls). getId (source l) = s \<and> getId (target l) \<in> set ls"
    by (auto dest!: safe_link_shape simp: mk_link_def)
  show ?thesis
    unfolding no_dangling_def list_all_iff ids lk
    using old new assms(2) by auto
qed

text \<open>
  Claim C4 fails on the code. The user seeds the graph from \<open>Physics\<close>, selects that
  node and asks for its expansion; while the links are fetched the language is toggled
  and the node becomes \<open>Physique\<close>; then the links arrive and the updater, which still
  holds the node selected before, commits a link from \<open>Physics\<close>, the id of no node. Every
  link of a reachable graph should have both its ends among the nodes; this one has not.
\<close>

theorem stale_expand_commits_dangling_link:
  "node_ids (graphData (run
     [Seed ''Physics'' [''Energy''], Relabel (map_of [(''Physics'', ''Physique'')]),
      Expand (Some (mk_node ''Physics'' 2)) [''Matter'']])) =
     [''Physique'', ''Energy'', ''Matter''] \<and>
   link_pairs (graphData (run
     [Seed ''Physics'' [''Energy''], Relabel (map_of [(''Physics'', ''Physique'')]),
      Expand (Some (mk_node ''Physics'' 2)) [''Matter'']])) =
     [(''Physique'', ''Energy''), (''Physics'', ''Matter'')] \<and>
   \<not> no_dangling (graphData (run
     [Seed ''Physics'' [''Energy''], Relabel (map_of [(''Physics'', ''Physique'')]),
      Expand (Some (mk_node ''Physics'' 2)) [''Matter'']]))"
  by (simp add: run_def initial_app_def empty_graph_def loadGraphData_def toggleLang_def
      handleExpandNode_def seed_def relabel_def relabel_node_def relabel_link_def
      translate_def get_property_def as_string_def object_prototype_keys_def expand_def
      nodesToAdd_def safeLinksToAdd_def linksToAdd_def existingNodeIds_def
      existingLinkKeys_def mk_node_def mk_link_def no_dangling_def link_key_def
      link_pairs_def link_pair_def node_ids_def)

section \<open>Relabelling\<close>

lemma those_map_Some:
  "(\<And>x. x \<in> set xs \<Longrightarrow> f x = Some (h x)) \<Longrightarrow> those (map f xs) = Some (map h xs)"
  by (induction xs) simp_all

lemma those_map_set:
  "those (map f xs) = Some ys \<Longrightarrow> \<forall>y \<in> set ys. \<exists>x \<in> set xs. f x = Some y"
proof (induction xs arbitrary: ys)
  case Nil
  then show ?case by simp
next
  case (Cons x xs)
  then show ?case
    by (cases "f x"; cases "those (map f xs)") auto
qed

text \<open>
  Where the id has an entry, or is not the name of an inherited member, the translation
  is a string: the entry if it is not empty, and the id otherwise.
\<close>

lemma translate_string:
  "m i \<noteq> None \<or> i \<notin> set object_prototype_keys \<Longrightarrow>
   as_string (translate m i) = Some (case m i of None \<Rightarrow> i | Some t \<Rightarrow> if t = [] then i else t)"
  by (cases "m i") (auto simp: translate_def get_property_def as_string_def)

text \<open>A typed title that names an inherited member has no string for a translation.\<close>

lemma translate_inherited:
  "translate Map.empty ''constructor'' = Inherited ''constructor'' \<and>
   relabel Map.empty (seed ''constructor'' []) = None"
  by (simp add: translate_def get_property_def object_prototype_keys_def relabel_def
      relabel_node_def as_string_def seed_def mk_node_def)

lemma inj_on_map_prod_same:
  assumes "inj_on f (fst ` P \<union> snd ` P)"
  shows "inj_on (map_prod f f) P"
proof (rule inj_onI)
  fix p q
  assume p: "p \<in> P" and q: "q \<in> P" and e: "map_prod f f p = map_prod f f q"
  obtain a b where pe: "p = (a, b)" by (cases p)
  obtain c d where qe: "q = (c, d)" by (cases q)
  have "a \<in> fst ` P" "c \<in> fst ` P" "b \<in> snd ` P" "d \<in> snd ` P"
    using p q pe qe by force+
  moreover have "f a = f c" "f b = f d" using e pe qe by simp_all
  ultimately have "a = c" "b = d" using assms by (auto dest: inj_onD)
  then show "p = q" by (simp add: pe qe)
qed

lemma relabel_Some:
  assumes "\<forall>i \<in> graph_ids g. m i \<noteq> None \<or> i \<notin> set object_prototype_keys"
  shows "relabel m g =
     Some \<lparr>nodes = map (\<lambda>node. node\<lparr>id_n :=
                (case m (id_n node) of None \<Rightarrow> id_n node | Some t \<Rightarrow> if t = [] then id_n node else t),
                x_n := None, y_n := None, vx := None, vy := None, index_n := None\<rparr>) (nodes g),
           links = map (\<lambda>link. mk_link
                (case m (getId (source link)) of None \<Rightarrow> getId (source link)
                 | Some t \<Rightarrow> if t = [] then getId (source link) else t)
                (case m (getId (target link)) of None \<Rightarrow> getId (target link)
                 | Some t \<Rightarrow> if t = [] then getId (target link) else t)) (links g)\<rparr>"
proof -
  have n: "those (map (relabel_node m) (nodes g)) =
      Some (map (\<lambda>node. node\<lparr>id_n :=
                (case m (id_n node) of None \<Rightarrow> id_n node | Some t \<Rightarrow> if t = [] then id_n node else t),
                x_n := None, y_n := None, vx := None, vy := None, index_n := None\<rparr>) (nodes g))"
  proof (rule those_map_Some)
    fix node assume "node \<in> set (nodes g)"
    then have "id_n node \<in> graph_ids g"
      by (simp add: graph_ids_def node_ids_def)
    with assms have "m (id_n node) \<noteq> None \<or> id_n node \<notin> set object_prototype_keys"
      by blast
    then show "relabel_node m node = Some (node\<lparr>id_n :=
                (case m (id_n node) of None \<Rightarrow> id_n node | Some t \<Rightarrow> if t = [] then id_n node else t),
                x_n := None, y_n := None, vx := None, vy := None, index_n := None\<rparr>)"
      by (simp add: relabel_node_def translate_string)
  qed
  have l: "those (map (relabel_link m) (links g)) =
      Some (map (\<lambda>link. mk_link
                (case m (getId (source link)) of None \<Rightarrow> getId (source link)
                 | Some t \<Rightarrow> if t = [] then getId (source link) else t)
                (case m (getId (target link)) of None \<Rightarrow> getId (target link)
                 | Some t \<Rightarrow> if t = [] then getId (target link) else t)) (links g))"
  proof (rule those_map_Some)
    fix link assume "link \<in> set (links g)"
    then have "link_pair link \<in> set (link_pairs g)"
      by (simp add: link_pairs_def)
    then have "getId (source link) \<in> graph_ids g" "getId (target link) \<in> graph_ids g"
      by (force simp: graph_ids_def link_pair_def)+
    with assms have "m (getId (source link)) \<noteq> None \<or> getId (source link) \<notin> set object_prototype_keys"
      and "m (getId (target link)) \<noteq> None \<or> getId (target link) \<notin> set object_prototype_keys"
      by blast+
    then show "relabel_link m link = Some (mk_link
                (case m (getId (source link)) of None \<Rightarrow> getId (source link)
                 | Some t \<Rightarrow> if t = [] then getId (source link) else t)
                (case m (getId (target link)) of None \<Rightarrow> getId (target link)
                 | Some t \<Rightarrow> if t = [] then getId (target link) else t))"
      by (simp add: relabel_link_def translate_string)
  qed
  show ?thesis
    by (simp add: relabel_def n l)
qed

text \<open>
  Two titles with the same translation stay two nodes, now with the same id, and their
  links from the root stay two links with the same ordered pair.
\<close>

theorem relabel_collision_counterexample:
  "''B'' \<noteq> ''C'' \<and>
   translate (map_of [(''B'', ''X''), (''C'', ''X'')]) ''B'' =
     translate (map_of [(''B'', ''X''), (''C'', ''X'')]) ''C'' \<and>
   map_option node_ids
     (relabel (map_of [(''B'', ''X''), (''C'', ''X'')]) (seed ''A'' [''B'', ''C''])) =
     Some [''A'', ''X'', ''X''] \<and>
   map_option link_pairs
     (relabel (map_of [(''B'', ''X''), (''C'', ''X'')]) (seed ''A'' [''B'', ''C''])) =
     Some [(''A'', ''X''), (''A'', ''X'')]"
  by (simp add: relabel_def relabel_node_def relabel_link_def translate_def get_property_def
      as_string_def object_prototype_keys_def seed_def mk_node_def mk_link_def node_ids_def
      link_pairs_def link_pair_def)

text \<open>
  Claim C3, as the code has it. Let no id of the graph that has no entry in the mapping
  be the name of a member that a plain object inherits. Then \<open>relabel\<close> yields a graph,
  and it substitutes ids one for one and merges nothing: the graph keeps its number of
  nodes and of links, and every node id and every link endpoint is replaced, in place,
  by its entry in the mapping if it has one that is not the empty string, and is kept
  otherwise. Where this substitution is injective on the ids of the graph, distinct
  node ids stay distinct and distinct link pairs stay distinct.
\<close>

theorem relabel_substitutes_one_for_one:
  assumes "\<forall>i \<in> graph_ids g. m i \<noteq> None \<or> i \<notin> set object_prototype_keys"
  shows "\<exists>g'. relabel m g = Some g' \<and>
     length (nodes g') = length (nodes g) \<and>
     length (links g') = length (links g) \<and>
     node_ids g' =
       map (\<lambda>i. case m i of None \<Rightarrow> i | Some t \<Rightarrow> if t = [] then i else t) (node_ids g) \<and>
     link_pairs g' =
       map (map_prod (\<lambda>i. case m i of None \<Rightarrow> i | Some t \<Rightarrow> if t = [] then i else t)
                     (\<lambda>i. case m i of None \<Rightarrow> i | Some t \<Rightarrow> if t = [] then i else t))
         (link_pairs g) \<and>
     (inj_on (\<lambda>i. case m i of None \<Rightarrow> i | Some t \<Rightarrow> if t = [] then i else t) (graph_ids g) \<longrightarrow>
        (distinct (node_ids g) \<longrightarrow> distinct (node_ids g')) \<and>
        (unique_links g \<longrightarrow> unique_links g'))"
proof -
  let ?f = "\<lambda>i. case m i of None \<Rightarrow> i | Some t \<Rightarrow> if t = [] then i else t"
  let ?g = "\<lparr>nodes = map (\<lambda>node. node\<lparr>id_n := ?f (id_n node),
                x_n := None, y_n := None, vx := None, vy := None, index_n := None\<rparr>) (nodes g),
             links = map (\<lambda>link. mk_link (?f (getId (source link))) (?f (getId (target link))))
                (links g)\<rparr>"
  have r: "relabel m g = Some ?g"
    using assms by (rule relabel_Some)
  have ids: "node_ids ?g = map ?f (node_ids g)"
    by (simp add: node_ids_def comp_def)
  have prs: "link_pairs ?g = map (map_prod ?f ?f) (link_pairs g)"
    by (simp add: link_pairs_def comp_def link_pair_def mk_link_def)
  have d1: "distinct (node_ids ?g)" if "inj_on ?f (graph_ids g)" and "distinct (node_ids g)"
  proof -
    from that(1) have "inj_on ?f (set (node_ids g))"
      by (rule inj_on_subset) (auto simp: graph_ids_def)
    with that(2) show ?thesis by (simp add: ids distinct_map)
  qed
  have d2: "unique_links ?g" if i: "inj_on ?f (graph_ids g)" and u: "unique_links g"
  proof -
    from i have "inj_on ?f (fst ` set (link_pairs g) \<union> snd ` set (link_pairs g))"
      by (rule inj_on_subset) (auto simp: graph_ids_def)
    then have "inj_on (map_prod ?f ?f) (set (link_pairs g))"
      by (rule inj_on_map_prod_same)
    with u show ?thesis by (simp add: unique_links_def prs distinct_map)
  qed
  have "length (nodes ?g) = length (nodes g)" "length (links ?g) = length (links g)"
    by simp_all
  with r ids prs d1 d2 show ?thesis
    by blast
qed

theorem relabel_substitutes_one_for_one_witness:
  "map_option node_ids (relabel (map_of [(''Physics'', ''Physique''), (''Germany'', '''')])
      (seed ''Albert Einstein'' [''Physics'', ''Nobel Prize'', ''Germany''])) =
     Some [''Albert Einstein'', ''Physique'', ''Nobel Prize'', ''Germany''] \<and>
   map_option (\<lambda>g. distinct (node_ids g))
     (relabel (map_of [(''Physics'', ''Physique''), (''Germany'', '''')])
      (seed ''Albert Einstein'' [''Physics'', ''Nobel Prize'', ''Germany''])) = Some True \<and>
   map_option unique_links (relabel (map_of [(''Physics'', ''Physique''), (''Germany'', '''')])
      (seed ''Albert Einstein'' [''Physics'', ''Nobel Prize'', ''Germany''])) = Some True"
proof -
  let ?m = "map_of [(''Physics'', ''Physique''), (''Germany'', '''')]"
  let ?g = "seed ''Albert Einstein'' [''Physics'', ''Nobel Prize'', ''Germany'']"
  let ?f = "\<lambda>i. case ?m i of None \<Rightarrow> i | Some t \<Rightarrow> if t = [] then i else t"
  have gi: "graph_ids ?g = {''Albert Einstein'', ''Physics'', ''Nobel Prize'', ''Germany''}"
    by (auto simp: graph_ids_def node_ids_seed link_pairs_seed)
  have h: "\<forall>i \<in> graph_ids ?g. ?m i \<noteq> None \<or> i \<notin> set object_prototype_keys"
    by (simp add: gi object_prototype_keys_def)
  have inj: "inj_on ?f (graph_ids ?g)"
    by (simp add: gi)
  have d: "distinct (node_ids ?g)" "unique_links ?g"
    by (simp_all add: node_ids_seed unique_links_def link_pairs_seed)
  from relabel_substitutes_one_for_one [OF h] inj d
  obtain g' where "relabel ?m ?g = Some g'" "node_ids g' = map ?f (node_ids ?g)"
    "distinct (node_ids g')" "unique_links g'"
    by blast
  then show ?thesis
    by (simp add: node_ids_seed)
qed

section \<open>The simulation after an expansion\<close>

lemma layout_unset_mk_node: "layout_unset (mk_node i v)"
  by (simp add: layout_unset_def mk_node_def)

lemma layout_unset_seed: "list_all layout_unset (nodes (seed r ls))"
  by (simp add: seed_def list_all_iff layout_unset_mk_node)

lemma layout_unset_expand:
  "list_all layout_unset (nodes g) \<Longrightarrow> list_all layout_unset (nodes (expand g s ls))"
  by (auto simp: expand_def nodesToAdd_def list_all_iff layout_unset_mk_node)

lemma layout_unset_relabel_node:
  "relabel_node m n = Some n' \<Longrightarrow> layout_unset n \<Longrightarrow> layout_unset n'"
  by (auto simp: relabel_node_def layout_unset_def)

lemma layout_unset_relabel:
  assumes "relabel m g = Some g'" "list_all layout_unset (nodes g)"
  shows "list_all layout_unset (nodes g')"
proof -
  from assms(1) have "those (map (relabel_node m) (nodes g)) = Some (nodes g')"
    by (auto simp: relabel_def split: option.splits)
  then have "\<forall>n' \<in> set (nodes g'). \<exists>n \<in> set (nodes g). relabel_node m n = Some n'"
    by (rule those_map_set)
  with assms(2) show ?thesis
    by (auto simp: list_all_iff dest: layout_unset_relabel_node)
qed

lemma layout_unset_step:
  "step app op = Some app' \<Longrightarrow> list_all layout_unset (nodes (graphData app)) \<Longrightarrow>
   list_all layout_unset (nodes (graphData app'))"
proof (cases op)
  case (Seed r ls)
  assume "step app op = Some app'"
  with Seed show ?thesis
    by (auto simp: loadGraphData_def layout_unset_seed)
next
  case (Expand sel ls)
  assume "step app op = Some app'" "list_all layout_unset (nodes (graphData app))"
  with Expand show ?thesis
    by (cases sel) (auto simp: handleExpandNode_def layout_unset_expand)
next
  case (Relabel m)
  assume "step app op = Some app'" "list_all layout_unset (nodes (graphData app))"
  with Relabel show ?thesis
    by (auto simp: toggleLang_def split: if_splits dest: layout_unset_relabel)
next
  case Clear
  assume "step app op = Some app'"
  with Clear show ?thesis
    by (auto simp: reset_def empty_graph_def)
qed

lemma layout_unset_run_from:
  "list_all layout_unset (nodes (graphData app)) \<Longrightarrow>
   list_all layout_unset (nodes (graphData (run_from app ops)))"
proof (induction ops arbitrary: app)
  case Nil
  then show ?case by simp
next
  case (Cons op ops)
  show ?case
  proof (cases "step app op")
    case None
    with Cons.prems show ?thesis by simp
  next
    case (Some app')
    from Some Cons.prems have "list_all layout_unset (nodes (graphData app'))"
      by (rule layout_unset_step)
    then have "list_all layout_unset (nodes (graphData (run_from app' ops)))"
      by (rule Cons.IH)
    with Some show ?thesis by simp
  qed
qed

lemma layout_unset_run: "list_all layout_unset (nodes (graphData (run ops)))"
  unfolding run_def by (rule layout_unset_run_from) (simp add: initial_app_def empty_graph_def)

text \<open>
  The node \<open>A\<close> of a running simulation is pinned at \<open>(5, 7)\<close> by a drag that has
  started and not ended. The simulation started after an expansion holds the node \<open>A\<close>
  without a pin: its nodes are copies of the store's nodes, not of the nodes of the
  simulation before.
\<close>

theorem expand_reinit_pin_counterexample:
  "pin_state ''A''
     (on_node 0 (dragged (5, 7)) (on_node 0 dragstarted (running_nodes (seed ''A'' [''B''])))) =
     Some (Some 5, Some 7) \<and>
   pin_state ''A'' (running_nodes (expand (seed ''A'' [''B'']) ''A'' [''C''])) =
     Some (None, None)"
  by (simp add: pin_state_def find_node_def on_node_def dragstarted_def dragged_def
      running_nodes_def initGraph_def nodes_expand seed_def mk_node_def)

text \<open>
  Claim C7, as the code has it. The simulation started after an expansion is given
  copies of the store's nodes, the existing nodes unchanged and in their order followed
  by the added ones, and nothing of the simulation that ran before. For a store built
  by seed, expand, relabel and clear operations every one of these nodes, existing or
  added, has unset coordinates, velocity and pin.
\<close>

theorem expand_reinit_from_store:
  "map_option sim_nodes (initGraph True (expand (graphData (run ops)) s ls)) =
     Some (nodes (graphData (run ops)) @ nodesToAdd (graphData (run ops)) ls) \<and>
   list_all layout_unset (nodes (graphData (run ops)) @ nodesToAdd (graphData (run ops)) ls)"
proof -
  have "list_all layout_unset (nodes (expand (graphData (run ops)) s ls))"
    by (rule layout_unset_expand) (rule layout_unset_run)
  then show ?thesis
    by (simp add: initGraph_def Let_def nodes_expand)
qed

theorem expand_reinit_from_store_witness:
  "map_option sim_nodes
     (initGraph True (expand (graphData (run [Seed ''A'' [''B'']])) ''B'' [''C''])) =
     Some [mk_node ''A'' 2, mk_node ''B'' 1, mk_node ''C'' 1] \<and>
   list_all layout_unset [mk_node ''A'' 2, mk_node ''B'' 1, mk_node ''C'' 1]"
  using expand_reinit_from_store [of "[Seed ''A'' [''B'']]" "''B''" "[''C'']"]
  by (simp add: run_def loadGraphData_def seed_def nodesToAdd_def existingNodeIds_def
      mk_node_def)

section \<open>The physics constants\<close>

text \<open>
  Claim C8. For every node count the link distance lies between 100 and 600 and the
  charge strength between -2000 and -300, and each is the clamp of its linear formula
  to that interval. JavaScript's numbers are taken as real numbers here.
\<close>

theorem physics_clamp_bounds:
  "100 \<le> dynamicLinkDistance n \<and> dynamicLinkDistance n \<le> 600 \<and>
   - 2000 \<le> dynamicChargeStrength n \<and> dynamicChargeStrength n \<le> - 300 \<and>
   dynamicLinkDistance n = clamp_spec (100 + 0.8 * real n) 100 600 \<and>
   dynamicChargeStrength n = clamp_spec (- 300 - 3 * real n) (- 2000) (- 300)"
  by (auto simp: dynamicLinkDistance_def dynamicChargeStrength_def clamp_spec_def min_def
      max_def)

section \<open>Batched translation\<close>

subsection \<open>Joining and splitting at bars\<close>

lemma split_bar_not_Nil: "split_bar s \<noteq> []"
  by (induction s) (auto split: list.splits)

lemma split_bar_no_bar: "CHR ''|'' \<notin> set x \<Longrightarrow> split_bar x = [x]"
  by (induction x) auto

lemma split_bar_append:
  "CHR ''|'' \<notin> set x \<Longrightarrow> split_bar (x @ CHR ''|'' # r) = x # split_bar r"
  by (induction x) auto

lemma split_join_bar:
  "xs \<noteq> [] \<Longrightarrow> \<forall>x \<in> set xs. CHR ''|'' \<notin> set x \<Longrightarrow> split_bar (join_bar xs) = xs"
proof (induction xs rule: join_bar.induct)
  case 1
  then show ?case by simp
next
  case (2 x)
  then show ?case by (simp add: split_bar_no_bar)
next
  case (3 x y ys)
  then show ?case by (simp add: split_bar_append)
qed

subsection \<open>What one response leaves in the translations\<close>

lemma store_page_entry: "store_page p tr = tr ++ map_of (rev (page_entry p))"
proof (cases "langlinks p")
  case None
  then show ?thesis by (simp add: store_page_def page_entry_def)
next
  case (Some ls)
  then show ?thesis by (cases ls) (simp_all add: store_page_def page_entry_def)
qed

lemma fold_store_page_entries:
  "fold store_page ps tr = tr ++ map_of (rev (concat (map page_entry ps)))"
proof (induction ps arbitrary: tr)
  case Nil
  show ?case by simp
next
  case (Cons p ps)
  have "fold store_page (p # ps) tr = fold store_page ps (store_page p tr)"
    by simp
  also have "\<dots> = store_page p tr ++ map_of (rev (concat (map page_entry ps)))"
    by (rule Cons.IH)
  also have "\<dots> = tr ++ (map_of (rev (page_entry p)) ++ map_of (rev (concat (map page_entry ps))))"
    by (simp add: store_page_entry)
  also have "\<dots> = tr ++ map_of (rev (concat (map page_entry (p # ps))))"
    by simp
  finally show ?case .
qed

lemma absorb_entries: "absorb r tr = tr ++ map_of (rev (response_entries r))"
proof (cases r)
  case Threw
  then show ?thesis by (simp add: absorb_def response_entries_def)
next
  case (Body b)
  then show ?thesis
    by (cases b) (simp_all add: absorb_def response_entries_def fold_store_page_entries)
qed

lemma gathered_Cons:
  "gathered fetch (r # rs) = response_entries (fetch (fst r) (snd r)) @ gathered fetch rs"
  by (simp add: gathered_def)

lemma gathered_member:
  assumes "r \<in> set reqs" "fetch (fst r) (snd r) = Body (Some ps)" "p \<in> set ps"
    "langlinks p = Some (l # ls)" "title p \<noteq> ''__proto__''"
  shows "(title p, l) \<in> set (gathered fetch reqs)"
proof -
  have "(title p, l) \<in> set (page_entry p)"
    using assms(4,5) by (simp add: page_entry_def)
  with assms(3) have "(title p, l) \<in> set (response_entries (fetch (fst r) (snd r)))"
    by (auto simp: response_entries_def assms(2))
  with assms(1) show ?thesis
    by (auto simp: gathered_def)
qed

subsection \<open>The loop\<close>

text \<open>
  From offset \<open>i\<close> the loop makes one request for each of the chunks of one to fifty
  titles that the titles from \<open>i\<close> on fall into, with the chunk joined by bars for a
  parameter, and it adds to the translations what the responses to these requests
  gather, a later entry replacing an earlier one of the same title.
\<close>

lemma batch_loop_requests:
  "\<exists>cs rs. snd (batch_loop fetch uts i st) = snd st @ rs \<and>
     map snd rs = map join_bar cs \<and> concat cs = drop i uts \<and>
     (\<forall>c \<in> set cs. c \<noteq> [] \<and> length c \<le> 50) \<and>
     fst (batch_loop fetch uts i st) = fst st ++ map_of (rev (gathered fetch rs))"
proof (induction fetch uts i st rule: batch_loop.induct)
  case (1 fetch uts i st)
  show ?case
  proof (cases "i < length uts")
    case False
    then have "batch_loop fetch uts i st = st"
      by (simp add: batch_loop.simps[of fetch uts i st])
    moreover have "drop i uts = []"
      using False by simp
    ultimately have "snd (batch_loop fetch uts i st) = snd st @ [] \<and>
        map snd ([] :: (nat \<times> string) list) = map join_bar [] \<and> concat [] = drop i uts \<and>
        (\<forall>c \<in> set ([] :: string list list). c \<noteq> [] \<and> length c \<le> 50) \<and>
        fst (batch_loop fetch uts i st) = fst st ++ map_of (rev (gathered fetch []))"
      by (simp add: gathered_def)
    then show ?thesis by blast
  next
    case True
    let ?chunk = "take chunkSize (drop i uts)"
    let ?q = "join_bar ?chunk"
    let ?st' = "(absorb (fetch i ?q) (fst st), snd st @ [(i, ?q)])"
    have unfold: "batch_loop fetch uts i st = batch_loop fetch uts (i + chunkSize) ?st'"
      using True by (simp add: batch_loop.simps[of fetch uts i st] Let_def)
    from "1.IH"[OF True refl refl]
    obtain cs rs where
      a: "snd (batch_loop fetch uts (i + chunkSize) ?st') = snd ?st' @ rs"
      and b: "map snd rs = map join_bar cs"
      and c: "concat cs = drop (i + chunkSize) uts"
      and d: "\<forall>c \<in> set cs. c \<noteq> [] \<and> length c \<le> 50"
      and e: "fst (batch_loop fetch uts (i + chunkSize) ?st') =
          fst ?st' ++ map_of (rev (gathered fetch rs))"
      by blast
    have chunk: "?chunk \<noteq> [] \<and> length ?chunk \<le> 50"
      using True by (simp add: chunkSize_def)
    have "take chunkSize (drop i uts) @ drop chunkSize (drop i uts) = drop i uts"
      by (rule append_take_drop_id)
    then have cc: "concat (?chunk # cs) = drop i uts"
      using c by (simp add: add.commute)
    have "fst ?st' ++ map_of (rev (gathered fetch rs)) =
        fst st ++ (map_of (rev (response_entries (fetch i ?q))) ++ map_of (rev (gathered fetch rs)))"
      by (simp add: absorb_entries)
    also have "\<dots> = fst st ++ map_of (rev (gathered fetch ((i, ?q) # rs)))"
      by (simp add: gathered_Cons)
    finally have ee: "fst (batch_loop fetch uts i st) =
        fst st ++ map_of (rev (gathered fetch ((i, ?q) # rs)))"
      using e unfold by simp
    have "snd (batch_loop fetch uts i st) = snd st @ ((i, ?q) # rs) \<and>
        map snd ((i, ?q) # rs) = map join_bar (?chunk # cs) \<and>
        concat (?chunk # cs) = drop i uts \<and>
        (\<forall>c \<in> set (?chunk # cs). c \<noteq> [] \<and> length c \<le> 50) \<and>
        fst (batch_loop fetch uts i st) = fst st ++ map_of (rev (gathered fetch ((i, ?q) # rs)))"
      using a b cc d chunk ee unfold by simp
    then show ?thesis by blast
  qed
qed

lemma uniqueTitles_props: "distinct (uniqueTitles titles) \<and> set (uniqueTitles titles) = set titles"
  by (simp add: uniqueTitles_def)

lemma getBatchTranslations_requests:
  "\<exists>cs. map snd (snd (getBatchTranslations fetch titles)) = map join_bar cs \<and>
     concat cs = uniqueTitles titles \<and> (\<forall>c \<in> set cs. c \<noteq> [] \<and> length c \<le> 50) \<and>
     fst (getBatchTranslations fetch titles) =
       map_of (rev (gathered fetch (snd (getBatchTranslations fetch titles))))"
proof (cases "titles = []")
  case True
  then have "map snd (snd (getBatchTranslations fetch titles)) = map join_bar [] \<and>
     concat [] = uniqueTitles titles \<and> (\<forall>c \<in> set ([] :: string list list). c \<noteq> [] \<and> length c \<le> 50) \<and>
     fst (getBatchTranslations fetch titles) =
       map_of (rev (gathered fetch (snd (getBatchTranslations fetch titles))))"
    by (simp add: getBatchTranslations_def uniqueTitles_def gathered_def)
  then show ?thesis by blast
next
  case False
  let ?e = "(Map.empty :: string \<rightharpoonup> string, [] :: (nat \<times> string) list)"
  have r: "getBatchTranslations fetch titles = batch_loop fetch (uniqueTitles titles) 0 ?e"
    using False by (simp add: getBatchTranslations_def)
  from batch_loop_requests[of fetch "uniqueTitles titles" 0 ?e]
  obtain cs rs where "snd (batch_loop fetch (uniqueTitles titles) 0 ?e) = snd ?e @ rs"
    "map snd rs = map join_bar cs" "concat cs = drop 0 (uniqueTitles titles)"
    "\<forall>c \<in> set cs. c \<noteq> [] \<and> length c \<le> 50"
    "fst (batch_loop fetch (uniqueTitles titles) 0 ?e) = fst ?e ++ map_of (rev (gathered fetch rs))"
    by blast
  then have "map snd (snd (getBatchTranslations fetch titles)) = map join_bar cs \<and>
     concat cs = uniqueTitles titles \<and> (\<forall>c \<in> set cs. c \<noteq> [] \<and> length c \<le> 50) \<and>
     fst (getBatchTranslations fetch titles) =
       map_of (rev (gathered fetch (snd (getBatchTranslations fetch titles))))"
    by (simp add: r)
  then show ?thesis by blast
qed

text \<open>
  A request names more than fifty identifiers when a title holds a bar: fifty titles,
  one of them \<open>a|b\<close>, go out in one request of fifty-one identifiers. And the translation
  of a page titled \<open>__proto__\<close> is not in the result although its batch succeeded.
\<close>

theorem getBatchTranslations_counterexample:
  "length bar_titles = 50 \<and>
   snd (getBatchTranslations failing_fetch bar_titles) =
     [(0, ''t01|t02|t03|t04|t05|t06|t07|t08|t09|t10|t11|t12|t13|t14|t15|t16|t17|t18|t19|t20|t21|t22|t23|t24|t25|t26|t27|t28|t29|t30|t31|t32|t33|t34|t35|t36|t37|t38|t39|t40|t41|t42|t43|t44|t45|t46|t47|t48|t49|a|b'')] \<and>
   length (split_bar ''t01|t02|t03|t04|t05|t06|t07|t08|t09|t10|t11|t12|t13|t14|t15|t16|t17|t18|t19|t20|t21|t22|t23|t24|t25|t26|t27|t28|t29|t30|t31|t32|t33|t34|t35|t36|t37|t38|t39|t40|t41|t42|t43|t44|t45|t46|t47|t48|t49|a|b'') = 51 \<and>
   snd (getBatchTranslations proto_fetch [''a'']) = [(0, ''a'')] \<and>
   fst (getBatchTranslations proto_fetch [''a'']) ''__proto__'' = None"
  by (simp add: getBatchTranslations_def uniqueTitles_def batch_loop.simps chunkSize_def
      Let_def failing_fetch_def proto_fetch_def absorb_def store_page_def)

text \<open>
  Claim C9, as the code has it. \<open>getBatchTranslations\<close> sends the deduplicated titles,
  each once and in order, in chunks of one to fifty titles, every chunk as one request
  whose parameter is the chunk joined by bars; where no title holds a bar, every request
  names at most fifty identifiers, the titles of its chunk. A request that throws does
  not end the loop: the result is what the responses to all the requests gather, a later
  entry replacing an earlier one of the same title, so it holds a translation for every
  page with a langlink in the response to any request, a page titled \<open>__proto__\<close> apart,
  and it holds exactly the gathered langlink where no title is gathered twice.
\<close>

theorem getBatchTranslations_batches:
  "(\<exists>chunks. map snd (snd (getBatchTranslations fetch titles)) = map join_bar chunks \<and>
      concat chunks = uniqueTitles titles \<and> (\<forall>c \<in> set chunks. c \<noteq> [] \<and> length c \<le> 50)) \<and>
   distinct (uniqueTitles titles) \<and> set (uniqueTitles titles) = set titles \<and>
   ((\<forall>t \<in> set titles. CHR ''|'' \<notin> set t) \<longrightarrow>
      (\<forall>r \<in> set (snd (getBatchTranslations fetch titles)).
         split_bar (snd r) \<noteq> [] \<and> length (split_bar (snd r)) \<le> 50) \<and>
      concat (map (\<lambda>r. split_bar (snd r)) (snd (getBatchTranslations fetch titles))) =
        uniqueTitles titles) \<and>
   fst (getBatchTranslations fetch titles) =
     map_of (rev (gathered fetch (snd (getBatchTranslations fetch titles)))) \<and>
   (\<forall>r \<in> set (snd (getBatchTranslations fetch titles)). \<forall>ps.
      fetch (fst r) (snd r) = Body (Some ps) \<longrightarrow>
      (\<forall>p \<in> set ps. \<forall>l ls. langlinks p = Some (l # ls) \<longrightarrow> title p \<noteq> ''__proto__'' \<longrightarrow>
         title p \<in> dom (fst (getBatchTranslations fetch titles)) \<and>
         (distinct (map fst (gathered fetch (snd (getBatchTranslations fetch titles)))) \<longrightarrow>
            fst (getBatchTranslations fetch titles) (title p) = Some l)))"
proof -
  let ?r = "getBatchTranslations fetch titles"
  let ?G = "gathered fetch (snd ?r)"
  from getBatchTranslations_requests[of fetch titles]
  obtain cs where m: "map snd (snd ?r) = map join_bar cs"
    and c: "concat cs = uniqueTitles titles"
    and b: "\<forall>c \<in> set cs. c \<noteq> [] \<and> length c \<le> 50"
    and g: "fst ?r = map_of (rev ?G)"
    by blast
  have first: "\<exists>chunks. map snd (snd ?r) = map join_bar chunks \<and>
      concat chunks = uniqueTitles titles \<and> (\<forall>c \<in> set chunks. c \<noteq> [] \<and> length c \<le> 50)"
    using m c b by blast
  from uniqueTitles_props have u1: "distinct (uniqueTitles titles)"
    and u2: "set (uniqueTitles titles) = set titles"
    by blast+
  have bars: "(\<forall>r \<in> set (snd ?r). split_bar (snd r) \<noteq> [] \<and> length (split_bar (snd r)) \<le> 50) \<and>
      concat (map (\<lambda>r. split_bar (snd r)) (snd ?r)) = uniqueTitles titles"
    if nb: "\<forall>t \<in> set titles. CHR ''|'' \<notin> set t"
  proof -
    have sj: "split_bar (join_bar ch) = ch" if "ch \<in> set cs" for ch
    proof -
      from that b have "ch \<noteq> []" by blast
      moreover have "set ch \<subseteq> set titles"
        using that c u2 by (metis Sup_upper image_eqI set_concat set_map)
      ultimately show ?thesis
        using nb by (intro split_join_bar) auto
    qed
    have "map (\<lambda>r. split_bar (snd r)) (snd ?r) = map split_bar (map snd (snd ?r))"
      by (simp add: comp_def)
    also have "\<dots> = map split_bar (map join_bar cs)"
      by (simp only: m)
    also have "\<dots> = cs"
      using sj by (simp add: map_idI)
    finally have eq: "map (\<lambda>r. split_bar (snd r)) (snd ?r) = cs" .
    have "\<forall>r \<in> set (snd ?r). split_bar (snd r) \<in> set cs"
    proof
      fix r assume "r \<in> set (snd ?r)"
      then have "split_bar (snd r) \<in> set (map (\<lambda>r. split_bar (snd r)) (snd ?r))"
        by (rule_tac imageI[of r "set (snd ?r)" "\<lambda>r. split_bar (snd r)", simplified set_map[symmetric]])
      then show "split_bar (snd r) \<in> set cs" by (simp only: eq)
    qed
    with b have "\<forall>r \<in> set (snd ?r). split_bar (snd r) \<noteq> [] \<and> length (split_bar (snd r)) \<le> 50"
      by blast
    moreover have "concat (map (\<lambda>r. split_bar (snd r)) (snd ?r)) = uniqueTitles titles"
      by (simp only: eq c)
    ultimately show ?thesis by blast
  qed
  have pages: "title p \<in> dom (fst ?r) \<and> (distinct (map fst ?G) \<longrightarrow> fst ?r (title p) = Some l)"
    if "r \<in> set (snd ?r)" "fetch (fst r) (snd r) = Body (Some ps)" "p \<in> set ps"
      "langlinks p = Some (l # ls)" "title p \<noteq> ''__proto__''"
    for r ps p l ls
  proof -
    from that have mem: "(title p, l) \<in> set ?G"
      by (rule gathered_member)
    then have "title p \<in> fst ` set (rev ?G)"
      by force
    then have "title p \<in> dom (fst ?r)"
      by (simp add: g dom_map_of_conv_image_fst)
    moreover have "fst ?r (title p) = Some l" if "distinct (map fst ?G)"
    proof -
      from that have "distinct (map fst (rev ?G))"
        by (simp add: rev_map[symmetric])
      moreover from mem have "(title p, l) \<in> set (rev ?G)" by simp
      ultimately have "map_of (rev ?G) (title p) = Some l"
        by (rule map_of_is_SomeI)
      then show ?thesis by (simp only: g)
    qed
    ultimately show ?thesis by blast
  qed
  have last: "\<forall>r \<in> set (snd ?r). \<forall>ps. fetch (fst r) (snd r) = Body (Some ps) \<longrightarrow>
      (\<forall>p \<in> set ps. \<forall>l ls. langlinks p = Some (l # ls) \<longrightarrow> title p \<noteq> ''__proto__'' \<longrightarrow>
         title p \<in> dom (fst ?r) \<and> (distinct (map fst ?G) \<longrightarrow> fst ?r (title p) = Some l))"
    using pages by blast
  have mid: "(\<forall>t \<in> set titles. CHR ''|'' \<notin> set t) \<longrightarrow>
      (\<forall>r \<in> set (snd ?r). split_bar (snd r) \<noteq> [] \<and> length (split_bar (snd r)) \<le> 50) \<and>
      concat (map (\<lambda>r. split_bar (snd r)) (snd ?r)) = uniqueTitles titles"
    using bars by blast
  show ?thesis
    by (intro conjI) (rule first u1 u2 mid g last)+
qed

text \<open>
  In the concrete run the first request, of fifty titles, throws; the second request, of
  the one title left, is still made and its translation is in the result.
\<close>

theorem getBatchTranslations_batches_witness:
  "snd (getBatchTranslations example_fetch example_titles) =
     [(0, ''t01|t02|t03|t04|t05|t06|t07|t08|t09|t10|t11|t12|t13|t14|t15|t16|t17|t18|t19|t20|t21|t22|t23|t24|t25|t26|t27|t28|t29|t30|t31|t32|t33|t34|t35|t36|t37|t38|t39|t40|t41|t42|t43|t44|t45|t46|t47|t48|t49|t50''), (50, ''t51'')] \<and>
   example_fetch 0 ''t01|t02|t03|t04|t05|t06|t07|t08|t09|t10|t11|t12|t13|t14|t15|t16|t17|t18|t19|t20|t21|t22|t23|t24|t25|t26|t27|t28|t29|t30|t31|t32|t33|t34|t35|t36|t37|t38|t39|t40|t41|t42|t43|t44|t45|t46|t47|t48|t49|t50'' = Threw \<and>
   length (split_bar ''t01|t02|t03|t04|t05|t06|t07|t08|t09|t10|t11|t12|t13|t14|t15|t16|t17|t18|t19|t20|t21|t22|t23|t24|t25|t26|t27|t28|t29|t30|t31|t32|t33|t34|t35|t36|t37|t38|t39|t40|t41|t42|t43|t44|t45|t46|t47|t48|t49|t50'') = 50 \<and>
   gathered example_fetch (snd (getBatchTranslations example_fetch example_titles)) =
     [(''t51'', ''t51_fr'')] \<and>
   fst (getBatchTranslations example_fetch example_titles) ''t51'' = Some ''t51_fr''"
proof -
  let ?r = "getBatchTranslations example_fetch example_titles"
  let ?p = "\<lparr>title = ''t51'', langlinks = Some [''t51_fr'']\<rparr>"
  have ev: "snd ?r = [(0, ''t01|t02|t03|t04|t05|t06|t07|t08|t09|t10|t11|t12|t13|t14|t15|t16|t17|t18|t19|t20|t21|t22|t23|t24|t25|t26|t27|t28|t29|t30|t31|t32|t33|t34|t35|t36|t37|t38|t39|t40|t41|t42|t43|t44|t45|t46|t47|t48|t49|t50''), (50, ''t51'')]"
    by (simp add: getBatchTranslations_def uniqueTitles_def batch_loop.simps chunkSize_def
        Let_def)
  have threw: "example_fetch 0 ''t01|t02|t03|t04|t05|t06|t07|t08|t09|t10|t11|t12|t13|t14|t15|t16|t17|t18|t19|t20|t21|t22|t23|t24|t25|t26|t27|t28|t29|t30|t31|t32|t33|t34|t35|t36|t37|t38|t39|t40|t41|t42|t43|t44|t45|t46|t47|t48|t49|t50'' = Threw"
    by (simp add: example_fetch_def)
  have f: "example_fetch 50 ''t51'' = Body (Some [?p])"
    by (simp add: example_fetch_def)
  have ga: "gathered example_fetch (snd ?r) = [(''t51'', ''t51_fr'')]"
    by (simp add: ev gathered_def response_entries_def page_entry_def threw f)
  have nb: "\<forall>t \<in> set example_titles. CHR ''|'' \<notin> set t"
    by simp
  note inst = getBatchTranslations_batches [of example_fetch example_titles]
  from inst nb have "\<forall>r \<in> set (snd ?r). split_bar (snd r) \<noteq> [] \<and> length (split_bar (snd r)) \<le> 50"
    by blast
  then have le: "length (split_bar ''t01|t02|t03|t04|t05|t06|t07|t08|t09|t10|t11|t12|t13|t14|t15|t16|t17|t18|t19|t20|t21|t22|t23|t24|t25|t26|t27|t28|t29|t30|t31|t32|t33|t34|t35|t36|t37|t38|t39|t40|t41|t42|t43|t44|t45|t46|t47|t48|t49|t50'') \<le> 50"
    by (simp add: ev)
  have "50 \<le> length (split_bar ''t01|t02|t03|t04|t05|t06|t07|t08|t09|t10|t11|t12|t13|t14|t15|t16|t17|t18|t19|t20|t21|t22|t23|t24|t25|t26|t27|t28|t29|t30|t31|t32|t33|t34|t35|t36|t37|t38|t39|t40|t41|t42|t43|t44|t45|t46|t47|t48|t49|t50'')"
    by simp
  with le have len: "length (split_bar ''t01|t02|t03|t04|t05|t06|t07|t08|t09|t10|t11|t12|t13|t14|t15|t16|t17|t18|t19|t20|t21|t22|t23|t24|t25|t26|t27|t28|t29|t30|t31|t32|t33|t34|t35|t36|t37|t38|t39|t40|t41|t42|t43|t44|t45|t46|t47|t48|t49|t50'') = 50"
    by simp
  from inst have all: "\<forall>r \<in> set (snd ?r). \<forall>ps. example_fetch (fst r) (snd r) = Body (Some ps) \<longrightarrow>
      (\<forall>p \<in> set ps. \<forall>l ls. langlinks p = Some (l # ls) \<longrightarrow> title p \<noteq> ''__proto__'' \<longrightarrow>
         title p \<in> dom (fst ?r) \<and>
         (distinct (map fst (gathered example_fetch (snd ?r))) \<longrightarrow> fst ?r (title p) = Some l))"
    by (elim conjE)
  have "(50, ''t51'') \<in> set (snd ?r)"
    by (simp add: ev)
  from all [rule_format, OF this, of "[?p]" ?p "''t51_fr''" "[]"] f
  have v: "fst ?r ''t51'' = Some ''t51_fr''"
    by (simp add: ga)
  from ev threw len ga v show ?thesis
    by (intro conjI) (simp_all only:)
qed

end
